theory Spec2Isabelle
  imports Main
begin

section \<open>Browser storage and the values kept in it\<close>

text \<open>
  \<^verbatim>\<open>localStorage\<close> is a string-keyed store of strings: \<^verbatim>\<open>getItem\<close> answers
  \<^verbatim>\<open>null\<close> (here \<open>None\<close>) for a key that is not there.
\<close>

type_synonym localStorage = "string \<rightharpoonup> string"

definition getItem :: "localStorage \<Rightarrow> string \<Rightarrow> string option" where
  "getItem ls k = ls k"

definition setItem :: "string \<Rightarrow> string \<Rightarrow> localStorage \<Rightarrow> localStorage" where
  "setItem k v ls = ls(k \<mapsto> v)"

definition removeItem :: "string \<Rightarrow> localStorage \<Rightarrow> localStorage" where
  "removeItem k ls = ls(k := None)"

definition clear :: "localStorage \<Rightarrow> localStorage" where
  "clear ls = Map.empty"

text \<open>
  JavaScript truthiness of a \<^verbatim>\<open>string | null | undefined\<close>: only a non-empty
  string passes an \<^verbatim>\<open>if\<close>.
\<close>

fun truthy :: "string option \<Rightarrow> bool" where
  "truthy None = False"
| "truthy (Some s) = (s \<noteq> [])"

text \<open>
  \<^verbatim>\<open>s.replace(/^"|"$/g, "")\<close>: the global pattern removes a double quote standing at the
  start of the string and a double quote standing at its end. The two matches never
  overlap, so a string that is one quote character long loses that one character.
\<close>

definition dquote :: char where
  "dquote = CHR 0x22"

definition strip_quotes :: "string \<Rightarrow> string" where
  "strip_quotes s =
     (let s1 = (case s of [] \<Rightarrow> [] | c # cs \<Rightarrow> if c = dquote then cs else s)
      in if s1 \<noteq> [] \<and> last s1 = dquote then butlast s1 else s1)"

text \<open>
  \<^verbatim>\<open>JSON.stringify\<close> of a string: the string between double quotes, with the quote,
  the backslash and the control characters escaped. Of \<^verbatim>\<open>undefined\<close> it is
  \<^verbatim>\<open>undefined\<close>, which \<^verbatim>\<open>setItem\<close> stores as the text \<^verbatim>\<open>undefined\<close>.
\<close>

definition backslash :: char where
  "backslash = CHR 0x5C"

definition hex_digit :: "nat \<Rightarrow> char" where
  "hex_digit n = ''0123456789abcdef'' ! (n mod 16)"

definition json_quote_char :: "char \<Rightarrow> string" where
  "json_quote_char c =
     (let n = (of_char c :: nat) in
      if n = 8 then [backslash, CHR ''b'']
      else if n = 9 then [backslash, CHR ''t'']
      else if n = 10 then [backslash, CHR ''n'']
      else if n = 12 then [backslash, CHR ''f'']
      else if n = 13 then [backslash, CHR ''r'']
      else if c = dquote then [backslash, dquote]
      else if c = backslash then [backslash, backslash]
      else if n < 32 then
        [backslash, CHR ''u'', CHR ''0'', CHR ''0'', hex_digit (n div 16), hex_digit n]
      else [c])"

definition JSON_stringify :: "string \<Rightarrow> string" where
  "JSON_stringify s = dquote # concat (map json_quote_char s) @ [dquote]"

text \<open>What \<^verbatim>\<open>setItem(k, JSON.stringify(v))\<close> writes for a field \<open>v\<close> of the response
  that is a string (\<open>Some\<close>) or missing (\<open>None\<close>, \<^verbatim>\<open>undefined\<close>).\<close>

fun stored_json :: "string option \<Rightarrow> string" where
  "stored_json None = ''undefined''"
| "stored_json (Some s) = JSON_stringify s"

section \<open>The request interceptor\<close>

text \<open>
  Of an Axios request descriptor the code reads and writes the headers and the
  \<^verbatim>\<open>_retry\<close> mark.
\<close>

record config =
  headers :: "string \<rightharpoonup> string"
  retry :: bool

definition request_interceptor :: "localStorage \<Rightarrow> config \<Rightarrow> config" where
  "request_interceptor ls cfg =
     (let token = map_option strip_quotes (getItem ls ''access_token'');
          orgId = map_option strip_quotes (getItem ls ''active_org_id'');
          cfg1 = (if truthy token \<and> token \<noteq> Some ''undefined''
                  then cfg\<lparr>headers := (headers cfg)(''Authorization'' \<mapsto> ''Bearer '' @ the token)\<rparr>
                  else cfg);
          cfg2 = (if truthy orgId
                  then cfg1\<lparr>headers := (headers cfg1)(''X-Org-ID'' \<mapsto> the orgId)\<rparr>
                  else cfg1)
      in cfg2)"

section \<open>The refresh coordinator\<close>

text \<open>
  Request descriptors are objects: the interceptor marks and re-addresses the very
  descriptor the failed request carried, and hands that descriptor back to the client.
  So descriptors live in a store, addressed by numbers, and an error names the address
  of its \<^verbatim>\<open>config\<close>. \<open>status\<close> is \<^verbatim>\<open>error.response?.status\<close>, \<open>None\<close> when there
  was no response.
\<close>

record error =
  err_config :: nat
  status :: "nat option"
  message :: string

text \<open>
  An entry of \<^verbatim>\<open>failedQueue\<close> is the pair of closures \<^verbatim>\<open>{resolve, reject}\<close> made
  for one failed request; what the closures hold is that request's descriptor.
\<close>

datatype prom = Prom (request_of: nat)

text \<open>
  What the interceptor does to the outside, in the order it does it: the refresh request
  (with the refresh token it read), a request handed back to the client (with the
  \<^verbatim>\<open>Authorization\<close> header it carries at that moment), and the rejection of the
  promise a caller holds for a request.
\<close>

datatype effect =
    Post_refresh "string option"
  | Call_api nat "string option"
  | Rejected nat error

text \<open>
  The module's variables \<^verbatim>\<open>isRefreshing\<close> and \<^verbatim>\<open>failedQueue\<close>, the browser state
  the interceptor writes, the store of request descriptors, the handlers suspended at
  \<^verbatim>\<open>await axios.post(...)\<close> (each by the descriptor it holds), and the effects so far.
\<close>

record state =
  isRefreshing :: bool
  failedQueue :: "prom list"
  storage :: localStorage
  defaults_Authorization :: "string option"
  location_href :: string
  requests :: "nat \<Rightarrow> config"
  awaiting :: "nat list"
  effects :: "effect list"

text \<open>A template literal prints \<^verbatim>\<open>null\<close> as the text \<^verbatim>\<open>null\<close>.\<close>

fun template :: "string option \<Rightarrow> string" where
  "template None = ''null''"
| "template (Some s) = s"

definition set_Authorization :: "nat \<Rightarrow> string \<Rightarrow> state \<Rightarrow> state" where
  "set_Authorization r v s =
     s\<lparr>requests := (requests s)
          (r := (requests s r)\<lparr>headers := (headers (requests s r))(''Authorization'' \<mapsto> v)\<rparr>)\<rparr>"

definition call_api :: "nat \<Rightarrow> state \<Rightarrow> state" where
  "call_api r s = s\<lparr>effects := effects s @ [Call_api r (headers (requests s r) ''Authorization'')]\<rparr>"

definition reject :: "nat \<Rightarrow> error \<Rightarrow> state \<Rightarrow> state" where
  "reject r e s = s\<lparr>effects := effects s @ [Rejected r e]\<rparr>"

fun prom_resolve :: "prom \<Rightarrow> string option \<Rightarrow> state \<Rightarrow> state" where
  "prom_resolve (Prom r) token s =
     call_api r (set_Authorization r (''Bearer '' @ template token) s)"

fun prom_reject :: "prom \<Rightarrow> error \<Rightarrow> state \<Rightarrow> state" where
  "prom_reject (Prom r) e s = reject r e s"

text \<open>\<^verbatim>\<open>processQueue(error, token)\<close>: the callback of \<^verbatim>\<open>forEach\<close>, then the loop and
  the reset. \<open>None\<close> is \<^verbatim>\<open>null\<close>, and an error object is truthy.\<close>

definition settle_prom :: "error option \<Rightarrow> string option \<Rightarrow> prom \<Rightarrow> state \<Rightarrow> state" where
  "settle_prom error token prom =
     (case error of Some e \<Rightarrow> prom_reject prom e | None \<Rightarrow> prom_resolve prom token)"

definition processQueue :: "error option \<Rightarrow> string option \<Rightarrow> state \<Rightarrow> state" where
  "processQueue error token s =
     (fold (settle_prom error token) (failedQueue s) s)\<lparr>failedQueue := []\<rparr>"

text \<open>
  The error handler of the response interceptor, from its entry to its first
  \<^verbatim>\<open>await\<close> or its \<^verbatim>\<open>return\<close>: nothing else runs in between.
\<close>

definition response_rejected :: "error \<Rightarrow> state \<Rightarrow> state" where
  "response_rejected error s =
     (let originalRequest = err_config error in
      if status error = Some 401
         \<and> \<not> retry (requests s originalRequest)
         \<and> truthy (getItem (storage s) ''refresh_token'')
      then
        let s1 = s\<lparr>requests := (requests s)
                    (originalRequest := (requests s originalRequest)\<lparr>retry := True\<rparr>)\<rparr>
        in if isRefreshing s1
           then s1\<lparr>failedQueue := failedQueue s1 @ [Prom originalRequest]\<rparr>
           else
             let s2 = s1\<lparr>isRefreshing := True\<rparr>;
                 refreshToken = getItem (storage s2) ''refresh_token''
             in s2\<lparr>effects := effects s2 @ [Post_refresh refreshToken],
                   awaiting := awaiting s2 @ [originalRequest]\<rparr>
      else reject originalRequest error s)"

text \<open>The test that guards the refresh block of the handler: an authentication failure
  the coordinator takes up.\<close>

definition authentication_failure :: "error \<Rightarrow> state \<Rightarrow> bool" where
  "authentication_failure e s =
     (status e = Some 401
      \<and> \<not> retry (requests s (err_config e))
      \<and> truthy (getItem (storage s) ''refresh_token''))"

text \<open>
  The handler resumed after the refresh request: the rest of the \<^verbatim>\<open>try\<close> block when
  the request answered with \<^verbatim>\<open>data.access_token\<close>, the \<^verbatim>\<open>catch\<close> block when it
  failed; the \<^verbatim>\<open>finally\<close> block ends both.
\<close>

definition refresh_fulfilled :: "nat \<Rightarrow> string \<Rightarrow> state \<Rightarrow> state" where
  "refresh_fulfilled originalRequest newAccessToken s =
     (let s1 = s\<lparr>storage := setItem ''access_token'' newAccessToken (storage s)\<rparr>;
          s2 = s1\<lparr>defaults_Authorization := Some (''Bearer '' @ newAccessToken)\<rparr>;
          s3 = processQueue None (Some newAccessToken) s2;
          s4 = set_Authorization originalRequest (''Bearer '' @ newAccessToken) s3;
          s5 = call_api originalRequest s4
      in s5\<lparr>isRefreshing := False\<rparr>)"

definition refresh_failed :: "nat \<Rightarrow> error \<Rightarrow> state \<Rightarrow> state" where
  "refresh_failed originalRequest refreshError s =
     (let s1 = processQueue (Some refreshError) None s;
          s2 = s1\<lparr>storage := removeItem ''access_token'' (storage s1)\<rparr>;
          s3 = s2\<lparr>storage := removeItem ''refresh_token'' (storage s2)\<rparr>;
          s4 = s3\<lparr>location_href := ''/''\<rparr>;
          s5 = reject originalRequest refreshError s4
      in s5\<lparr>isRefreshing := False\<rparr>)"

text \<open>
  The event loop runs one handler step at a time: a response error enters the handler;
  a settled refresh request resumes the handler that awaits it.
\<close>

datatype event =
    Response_error error
  | Refresh_fulfilled nat string
  | Refresh_rejected nat error

fun step :: "state \<Rightarrow> event \<Rightarrow> state option" where
  "step s (Response_error e) = Some (response_rejected e s)"
| "step s (Refresh_fulfilled r t) =
     (if r \<in> set (awaiting s)
      then Some (refresh_fulfilled r t (s\<lparr>awaiting := remove1 r (awaiting s)\<rparr>))
      else None)"
| "step s (Refresh_rejected r e) =
     (if r \<in> set (awaiting s)
      then Some (refresh_failed r e (s\<lparr>awaiting := remove1 r (awaiting s)\<rparr>))
      else None)"

fun run :: "state \<Rightarrow> event list \<Rightarrow> state option" where
  "run s [] = Some s"
| "run s (ev # evs) = (case step s ev of None \<Rightarrow> None | Some s' \<Rightarrow> run s' evs)"

text \<open>The module as loaded: no refresh, an empty queue, no descriptor marked.\<close>

definition initial :: "localStorage \<Rightarrow> string \<Rightarrow> (nat \<Rightarrow> string \<rightharpoonup> string) \<Rightarrow> state" where
  "initial ls href hdrs =
     \<lparr>isRefreshing = False, failedQueue = [], storage = ls,
      defaults_Authorization = None, location_href = href,
      requests = (\<lambda>r. \<lparr>headers = hdrs r, retry = False\<rparr>),
      awaiting = [], effects = []\<rparr>"

fun is_post :: "effect \<Rightarrow> bool" where
  "is_post (Post_refresh _) = True"
| "is_post _ = False"

definition refresh_calls :: "state \<Rightarrow> nat" where
  "refresh_calls s = length (filter is_post (effects s))"

fun is_call :: "nat \<Rightarrow> effect \<Rightarrow> bool" where
  "is_call r (Call_api r' _) = (r' = r)"
| "is_call r _ = False"

definition replays :: "nat \<Rightarrow> state \<Rightarrow> nat" where
  "replays r s = length (filter (is_call r) (effects s))"

text \<open>The refresh requests a run has seen settle, and where a descriptor stands: handed
  back to the client, waiting in the queue, or held by a suspended handler.\<close>

fun is_settle :: "event \<Rightarrow> bool" where
  "is_settle (Response_error _) = False"
| "is_settle _ = True"

definition settled :: "event list \<Rightarrow> nat" where
  "settled evs = length (filter is_settle evs)"

definition occurrences :: "nat \<Rightarrow> state \<Rightarrow> nat" where
  "occurrences r s =
     replays r s + count_list (failedQueue s) (Prom r) + count_list (awaiting s) r"

text \<open>The two invariants of the coordinator.\<close>

definition single_flight :: "state \<Rightarrow> bool" where
  "single_flight s =
     (length (awaiting s) \<le> 1
      \<and> (isRefreshing s = (awaiting s \<noteq> []))
      \<and> (isRefreshing s \<or> failedQueue s = [])
      \<and> (\<not> isRefreshing s \<or> truthy (getItem (storage s) ''refresh_token'')))"

definition retried_once :: "state \<Rightarrow> bool" where
  "retried_once s = (\<forall>r. occurrences r s \<le> (if retry (requests s r) then 1 else 0))"

section \<open>Login\<close>

text \<open>
  \<^verbatim>\<open>AuthProvider.login\<close>, from the point where the login request has settled: on a
  response both fields are written as JSON text; a failed request writes nothing and
  raises again.
\<close>

definition login ::
  "error + (string option \<times> string option) \<Rightarrow> localStorage \<Rightarrow> error + localStorage" where
  "login response ls =
     (case response of
        Inl e \<Rightarrow> Inl e
      | Inr (access_token, refresh_token) \<Rightarrow>
          Inr (setItem ''refresh_token'' (stored_json refresh_token)
                (setItem ''access_token'' (stored_json access_token) ls)))"

text \<open>A token that JSON writes without an escape: no quote, no backslash and no
  control character in it.\<close>

definition json_plain :: "string \<Rightarrow> bool" where
  "json_plain s = list_all (\<lambda>c. json_quote_char c = [c]) s"

section \<open>The pages that write the store\<close>

record organization =
  org_id :: string
  name :: string
  slug :: string
  created_at :: string

record member =
  user_id :: string
  role :: string

text \<open>The state of the organizations page: the list shown, the organization the page
  holds as active, the one being deleted.\<close>

record org_page =
  organizations :: "organization list"
  activeOrgId :: "string option"
  deletingId :: "string option"

definition handleSelectOrg ::
  "organization \<Rightarrow> org_page \<Rightarrow> localStorage \<Rightarrow> org_page \<times> localStorage" where
  "handleSelectOrg org p ls =
     (p\<lparr>activeOrgId := Some (org_id org)\<rparr>, setItem ''active_org_id'' (org_id org) ls)"

text \<open>\<^verbatim>\<open>onSubmit\<close>, once the creation request has settled.\<close>

definition onSubmit ::
  "error + organization \<Rightarrow> org_page \<Rightarrow> localStorage \<Rightarrow> org_page \<times> localStorage" where
  "onSubmit response p ls =
     (case response of
        Inr newOrg \<Rightarrow>
          (p\<lparr>organizations := newOrg # organizations p\<rparr>,
           setItem ''active_org_id'' (org_id newOrg) ls)
      | Inl err \<Rightarrow> (p, ls))"

text \<open>
  \<^verbatim>\<open>handleDeleteOrg\<close>, once the delete request has settled (\<open>deleted\<close>: it succeeded).
  The list update is \<^verbatim>\<open>prev.filter((org) => org.id !== org.id)\<close>: the arrow's
  parameter hides the handler's \<^verbatim>\<open>org\<close>, and both sides of the comparison are the
  element's own id. The update of the store, two lines below, compares with the
  handler's \<^verbatim>\<open>org\<close>.
\<close>

definition handleDeleteOrg ::
  "organization \<Rightarrow> bool \<Rightarrow> org_page \<Rightarrow> localStorage \<Rightarrow> org_page \<times> localStorage" where
  "handleDeleteOrg org deleted p ls =
     (if deleted then
        let p1 = p\<lparr>organizations := filter (\<lambda>org. org_id org \<noteq> org_id org) (organizations p)\<rparr>
        in if activeOrgId p = Some (org_id org) then
             let remaining = filter (\<lambda>o'. org_id o' \<noteq> org_id org) (organizations p);
                 nextId = (case remaining of [] \<Rightarrow> None | o' # _ \<Rightarrow> Some (org_id o'))
             in (p1\<lparr>activeOrgId := nextId, deletingId := None\<rparr>,
                 if truthy nextId then setItem ''active_org_id'' (the nextId) ls
                 else removeItem ''active_org_id'' ls)
           else (p1\<lparr>deletingId := None\<rparr>, ls)
      else (p\<lparr>deletingId := None\<rparr>, ls))"

text \<open>\<^verbatim>\<open>removeMember\<close>, once the delete request has succeeded.\<close>

definition removeMember :: "string \<Rightarrow> member list \<Rightarrow> member list" where
  "removeMember userId prev = filter (\<lambda>m. user_id m \<noteq> userId) prev"

text \<open>The organization switcher and the Switch buttons, and the Logout button; each
  reloads the page afterwards.\<close>

definition switchOrg :: "string \<Rightarrow> localStorage \<Rightarrow> localStorage" where
  "switchOrg orgId ls = setItem ''active_org_id'' orgId ls"

definition logout :: "localStorage \<Rightarrow> localStorage" where
  "logout ls = clear ls"

text \<open>
  Every place of the application that writes the store, as one action each; the
  coordinator's steps are among them.
\<close>

record app =
  session :: state
  orgs_view :: org_page

datatype action =
    Coordinator event
  | Login "error + (string option \<times> string option)"
  | Logout
  | SwitchOrg string
  | SelectOrg organization
  | CreateOrg "error + organization"
  | DeleteOrg organization bool

definition put :: "org_page \<times> localStorage \<Rightarrow> app \<Rightarrow> app" where
  "put r a = a\<lparr>session := (session a)\<lparr>storage := snd r\<rparr>, orgs_view := fst r\<rparr>"

fun act :: "app \<Rightarrow> action \<Rightarrow> app option" where
  "act a (Coordinator ev) = map_option (\<lambda>s. a\<lparr>session := s\<rparr>) (step (session a) ev)"
| "act a (Login response) =
     (case login response (storage (session a)) of
        Inl e \<Rightarrow> Some a
      | Inr ls \<Rightarrow> Some (put (orgs_view a, ls) a))"
| "act a Logout = Some (put (orgs_view a, logout (storage (session a))) a)"
| "act a (SwitchOrg orgId) = Some (put (orgs_view a, switchOrg orgId (storage (session a))) a)"
| "act a (SelectOrg org) = Some (put (handleSelectOrg org (orgs_view a) (storage (session a))) a)"
| "act a (CreateOrg response) = Some (put (onSubmit response (orgs_view a) (storage (session a))) a)"
| "act a (DeleteOrg org deleted) =
     Some (put (handleDeleteOrg org deleted (orgs_view a) (storage (session a))) a)"

text \<open>The actions by which the user switches to an organization or removes one, and,
  wider, the actions that write the active organization id at all.\<close>

fun switch_or_removal :: "action \<Rightarrow> bool" where
  "switch_or_removal (SwitchOrg _) = True"
| "switch_or_removal (SelectOrg _) = True"
| "switch_or_removal (DeleteOrg _ _) = True"
| "switch_or_removal _ = False"

fun writes_active_org :: "action \<Rightarrow> bool" where
  "writes_active_org (CreateOrg _) = True"
| "writes_active_org Logout = True"
| "writes_active_org x = switch_or_removal x"

section \<open>A sample session\<close>

definition sample_storage :: localStorage where
  "sample_storage =
     [''access_token'' \<mapsto> ''T1'', ''refresh_token'' \<mapsto> ''R1'', ''active_org_id'' \<mapsto> ''org-1'']"

definition sample_initial :: state where
  "sample_initial = initial sample_storage ''/orgs'' (\<lambda>r. Map.empty)"

definition unauthorized :: "nat \<Rightarrow> error" where
  "unauthorized r = \<lparr>err_config = r, status = Some 401, message = ''Unauthorized''\<rparr>"

definition refresh_error :: error where
  "refresh_error = \<lparr>err_config = 0, status = Some 400, message = ''invalid refresh token''\<rparr>"

text \<open>
  A run: request 11 fails and starts a refresh, request 12 fails and is queued, the
  refresh succeeds with the token \<^verbatim>\<open>T2\<close>, then request 13 fails and starts a
  second refresh.
\<close>

definition first_episode :: "event list" where
  "first_episode =
     [Response_error (unauthorized 11), Response_error (unauthorized 12),
      Refresh_fulfilled 11 ''T2'']"

definition sample_trace :: "event list" where
  "sample_trace = first_episode @ [Response_error (unauthorized 13)]"

definition second_refresh :: state where
  "second_refresh = the (run sample_initial sample_trace)"

definition sample_config :: config where
  "sample_config = \<lparr>headers = Map.empty, retry = False\<rparr>"

definition org_a :: organization where
  "org_a = \<lparr>org_id = ''org-1'', name = ''Alpha'', slug = ''alpha'', created_at = ''2025-01-01''\<rparr>"

definition org_b :: organization where
  "org_b = \<lparr>org_id = ''org-2'', name = ''Beta'', slug = ''beta'', created_at = ''2025-01-02''\<rparr>"

definition sample_page :: org_page where
  "sample_page = \<lparr>organizations = [org_a, org_b], activeOrgId = None, deletingId = None\<rparr>"

definition sample_app :: app where
  "sample_app = \<lparr>session = sample_initial, orgs_view = sample_page\<rparr>"

section \<open>Reading stored values\<close>

lemma strip_quotes_Nil: "strip_quotes [] = []"
  by (simp add: strip_quotes_def)

lemma strip_quotes_undefined: "strip_quotes ''undefined'' = ''undefined''"
  by (simp add: strip_quotes_def dquote_def)

lemma strip_quotes_quoted: "strip_quotes (dquote # s @ [dquote]) = s"
  by (simp add: strip_quotes_def)

lemma strip_quotes_stringify: "strip_quotes (JSON_stringify s) = concat (map json_quote_char s)"
  by (simp add: JSON_stringify_def strip_quotes_quoted)

lemma concat_plain: "json_plain s \<Longrightarrow> concat (map json_quote_char s) = s"
  by (induction s) (simp_all add: json_plain_def)

lemma interceptor_Authorization:
  "headers (request_interceptor ls cfg) ''Authorization'' =
     (case getItem ls ''access_token'' of
        None \<Rightarrow> headers cfg ''Authorization''
      | Some raw \<Rightarrow>
          if strip_quotes raw \<noteq> [] \<and> strip_quotes raw \<noteq> ''undefined''
          then Some (''Bearer '' @ strip_quotes raw)
          else headers cfg ''Authorization'')"
  by (auto simp: request_interceptor_def Let_def split: option.splits)

lemma interceptor_X_Org_ID:
  "headers (request_interceptor ls cfg) ''X-Org-ID'' =
     (case getItem ls ''active_org_id'' of
        None \<Rightarrow> headers cfg ''X-Org-ID''
      | Some raw \<Rightarrow>
          if strip_quotes raw \<noteq> [] then Some (strip_quotes raw) else headers cfg ''X-Org-ID'')"
  by (auto simp: request_interceptor_def Let_def split: option.splits)

section \<open>What each step of the coordinator changes\<close>

lemma prom_resolve_request:
  "prom_resolve p tok s =
     call_api (request_of p) (set_Authorization (request_of p) (''Bearer '' @ template tok) s)"
  by (cases p) simp

lemma prom_reject_request: "prom_reject p e s = reject (request_of p) e s"
  by (cases p) simp

lemma settle_prom_fields:
  "isRefreshing (settle_prom er tok p s) = isRefreshing s"
  "failedQueue (settle_prom er tok p s) = failedQueue s"
  "storage (settle_prom er tok p s) = storage s"
  "defaults_Authorization (settle_prom er tok p s) = defaults_Authorization s"
  "location_href (settle_prom er tok p s) = location_href s"
  "awaiting (settle_prom er tok p s) = awaiting s"
  "retry (requests (settle_prom er tok p s) r) = retry (requests s r)"
  by (cases er; simp add: settle_prom_def prom_resolve_request prom_reject_request
      call_api_def set_Authorization_def reject_def)+

lemma fold_settle_fields:
  "isRefreshing (fold (settle_prom er tok) q s) = isRefreshing s"
  "failedQueue (fold (settle_prom er tok) q s) = failedQueue s"
  "storage (fold (settle_prom er tok) q s) = storage s"
  "defaults_Authorization (fold (settle_prom er tok) q s) = defaults_Authorization s"
  "location_href (fold (settle_prom er tok) q s) = location_href s"
  "awaiting (fold (settle_prom er tok) q s) = awaiting s"
  "retry (requests (fold (settle_prom er tok) q s) r) = retry (requests s r)"
  by (induction q arbitrary: s; simp add: settle_prom_fields)+

lemma fold_resolve_effects:
  "effects (fold (settle_prom None tok) q s) =
     effects s @ map (\<lambda>p. Call_api (request_of p) (Some (''Bearer '' @ template tok))) q"
  by (induction q arbitrary: s)
    (simp_all add: settle_prom_def prom_resolve_request call_api_def set_Authorization_def)

lemma fold_reject_effects:
  "effects (fold (settle_prom (Some e) tok) q s) =
     effects s @ map (\<lambda>p. Rejected (request_of p) e) q"
  by (induction q arbitrary: s) (simp_all add: settle_prom_def prom_reject_request reject_def)

lemma processQueue_fields:
  "isRefreshing (processQueue er tok s) = isRefreshing s"
  "failedQueue (processQueue er tok s) = []"
  "storage (processQueue er tok s) = storage s"
  "defaults_Authorization (processQueue er tok s) = defaults_Authorization s"
  "location_href (processQueue er tok s) = location_href s"
  "awaiting (processQueue er tok s) = awaiting s"
  "retry (requests (processQueue er tok s) r) = retry (requests s r)"
  by (simp_all add: processQueue_def fold_settle_fields)

lemma processQueue_effects:
  "effects (processQueue None tok s) =
     effects s @ map (\<lambda>p. Call_api (request_of p) (Some (''Bearer '' @ template tok))) (failedQueue s)"
  "effects (processQueue (Some e) tok s) =
     effects s @ map (\<lambda>p. Rejected (request_of p) e) (failedQueue s)"
  by (simp_all add: processQueue_def fold_resolve_effects fold_reject_effects)

lemma processQueue_empty: "failedQueue s = [] \<Longrightarrow> effects (processQueue er tok s) = effects s"
  by (simp add: processQueue_def)

lemma refresh_fulfilled_fields:
  "isRefreshing (refresh_fulfilled r t s) = False"
  "failedQueue (refresh_fulfilled r t s) = []"
  "storage (refresh_fulfilled r t s) = setItem ''access_token'' t (storage s)"
  "defaults_Authorization (refresh_fulfilled r t s) = Some (''Bearer '' @ t)"
  "location_href (refresh_fulfilled r t s) = location_href s"
  "awaiting (refresh_fulfilled r t s) = awaiting s"
  "retry (requests (refresh_fulfilled r t s) r') = retry (requests s r')"
  "headers (requests (refresh_fulfilled r t s) r) ''Authorization'' = Some (''Bearer '' @ t)"
  by (simp_all add: refresh_fulfilled_def Let_def call_api_def set_Authorization_def
      processQueue_fields)

lemma refresh_fulfilled_effects:
  "effects (refresh_fulfilled r t s) =
     effects s @ map (\<lambda>p. Call_api (request_of p) (Some (''Bearer '' @ t))) (failedQueue s)
       @ [Call_api r (Some (''Bearer '' @ t))]"
  by (simp add: refresh_fulfilled_def Let_def call_api_def set_Authorization_def
      processQueue_effects)

lemma refresh_failed_fields:
  "isRefreshing (refresh_failed r e s) = False"
  "failedQueue (refresh_failed r e s) = []"
  "storage (refresh_failed r e s) =
     removeItem ''refresh_token'' (removeItem ''access_token'' (storage s))"
  "defaults_Authorization (refresh_failed r e s) = defaults_Authorization s"
  "location_href (refresh_failed r e s) = ''/''"
  "awaiting (refresh_failed r e s) = awaiting s"
  "retry (requests (refresh_failed r e s) r') = retry (requests s r')"
  by (simp_all add: refresh_failed_def Let_def reject_def processQueue_fields)

lemma refresh_failed_effects:
  "effects (refresh_failed r e s) =
     effects s @ map (\<lambda>p. Rejected (request_of p) e) (failedQueue s) @ [Rejected r e]"
  by (simp add: refresh_failed_def Let_def reject_def processQueue_effects)

lemma response_rejected_cases:
  "response_rejected e s =
    (if authentication_failure e s then
       if isRefreshing s then
         s\<lparr>requests := (requests s)(err_config e := (requests s (err_config e))\<lparr>retry := True\<rparr>),
           failedQueue := failedQueue s @ [Prom (err_config e)]\<rparr>
       else
         s\<lparr>requests := (requests s)(err_config e := (requests s (err_config e))\<lparr>retry := True\<rparr>),
           isRefreshing := True,
           effects := effects s @ [Post_refresh (getItem (storage s) ''refresh_token'')],
           awaiting := awaiting s @ [err_config e]\<rparr>
     else s\<lparr>effects := effects s @ [Rejected (err_config e) e]\<rparr>)"
  by (simp add: response_rejected_def authentication_failure_def reject_def Let_def)

lemma response_rejected_fields:
  "storage (response_rejected e s) = storage s"
  "defaults_Authorization (response_rejected e s) = defaults_Authorization s"
  "location_href (response_rejected e s) = location_href s"
  "isRefreshing (response_rejected e s) = (isRefreshing s \<or> authentication_failure e s)"
  "failedQueue (response_rejected e s) =
     (if authentication_failure e s \<and> isRefreshing s
      then failedQueue s @ [Prom (err_config e)] else failedQueue s)"
  "awaiting (response_rejected e s) =
     (if authentication_failure e s \<and> \<not> isRefreshing s
      then awaiting s @ [err_config e] else awaiting s)"
  "retry (requests (response_rejected e s) r) =
     (retry (requests s r) \<or> (authentication_failure e s \<and> r = err_config e))"
  by (simp_all add: response_rejected_cases)

lemma response_rejected_pass:
  "\<not> authentication_failure e s \<Longrightarrow>
     response_rejected e s = s\<lparr>effects := effects s @ [Rejected (err_config e) e]\<rparr>"
  by (simp add: response_rejected_cases)

section \<open>Counting refresh requests\<close>

lemma no_post_calls: "filter (is_post \<circ> (\<lambda>p. Call_api (f p) h)) q = []"
  by (induction q) simp_all

lemma no_post_rejects: "filter (is_post \<circ> (\<lambda>p. Rejected (f p) e)) q = []"
  by (induction q) simp_all

lemma refresh_calls_settled:
  "refresh_calls (refresh_fulfilled r t s) = refresh_calls s"
  "refresh_calls (refresh_failed r e s) = refresh_calls s"
  by (simp_all add: refresh_calls_def refresh_fulfilled_effects refresh_failed_effects
      no_post_calls no_post_rejects)

lemma refresh_calls_response:
  "refresh_calls (response_rejected e s) =
     (if authentication_failure e s \<and> \<not> isRefreshing s
      then Suc (refresh_calls s) else refresh_calls s)"
  by (simp add: refresh_calls_def response_rejected_cases)

lemma refresh_calls_awaiting_update: "refresh_calls (s\<lparr>awaiting := xs\<rparr>) = refresh_calls s"
  by (simp add: refresh_calls_def)

lemma length_remove1_mem: "x \<in> set xs \<Longrightarrow> Suc (length (remove1 x xs)) = length xs"
  by (induction xs) auto

lemma in_flight_step:
  assumes "step s ev = Some s'"
  shows "refresh_calls s' + length (awaiting s) =
    refresh_calls s + length (awaiting s') + (if is_settle ev then 1 else 0)"
proof (cases ev)
  case (Response_error e)
  with assms have "s' = response_rejected e s" by simp
  then show ?thesis using Response_error
    by (simp add: refresh_calls_response response_rejected_fields)
next
  case (Refresh_fulfilled r t)
  with assms have "r \<in> set (awaiting s)"
    and "s' = refresh_fulfilled r t (s\<lparr>awaiting := remove1 r (awaiting s)\<rparr>)"
    by (auto split: if_splits)
  then show ?thesis using Refresh_fulfilled length_remove1_mem[of r "awaiting s"]
    by (simp add: refresh_calls_settled refresh_fulfilled_fields refresh_calls_awaiting_update)
next
  case (Refresh_rejected r e)
  with assms have "r \<in> set (awaiting s)"
    and "s' = refresh_failed r e (s\<lparr>awaiting := remove1 r (awaiting s)\<rparr>)"
    by (auto split: if_splits)
  then show ?thesis using Refresh_rejected length_remove1_mem[of r "awaiting s"]
    by (simp add: refresh_calls_settled refresh_failed_fields refresh_calls_awaiting_update)
qed

lemma in_flight_run:
  "run s evs = Some s' \<Longrightarrow>
     refresh_calls s' + length (awaiting s) = refresh_calls s + length (awaiting s') + settled evs"
proof (induction evs arbitrary: s)
  case Nil
  then show ?case by (simp add: settled_def)
next
  case (Cons ev evs)
  then obtain s1 where s1: "step s ev = Some s1" "run s1 evs = Some s'"
    by (auto split: option.splits)
  from in_flight_step[OF s1(1)] Cons.IH[OF s1(2)] show ?case
    by (cases "is_settle ev") (simp_all add: settled_def)
qed

section \<open>The invariant: one refresh in flight\<close>

lemma single_flight_initial: "single_flight (initial ls href hdrs)"
  by (simp add: single_flight_def initial_def)

lemma single_flight_awaiting:
  assumes "single_flight s" "r \<in> set (awaiting s)"
  shows "awaiting s = [r]"
  using assms by (cases "awaiting s") (auto simp: single_flight_def)

lemma single_flight_step:
  assumes "single_flight s" "step s ev = Some s'"
  shows "single_flight s'"
proof (cases ev)
  case (Response_error e)
  with assms have s': "s' = response_rejected e s" by simp
  from assms(1) show ?thesis unfolding s'
    by (auto simp: single_flight_def response_rejected_fields authentication_failure_def)
next
  case (Refresh_fulfilled r t)
  with assms have mem: "r \<in> set (awaiting s)"
    and s': "s' = refresh_fulfilled r t (s\<lparr>awaiting := remove1 r (awaiting s)\<rparr>)"
    by (auto split: if_splits)
  from single_flight_awaiting[OF assms(1) mem] show ?thesis unfolding s'
    by (simp add: single_flight_def refresh_fulfilled_fields)
next
  case (Refresh_rejected r e)
  with assms have mem: "r \<in> set (awaiting s)"
    and s': "s' = refresh_failed r e (s\<lparr>awaiting := remove1 r (awaiting s)\<rparr>)"
    by (auto split: if_splits)
  from single_flight_awaiting[OF assms(1) mem] show ?thesis unfolding s'
    by (simp add: single_flight_def refresh_failed_fields)
qed

lemma single_flight_run: "single_flight s \<Longrightarrow> run s evs = Some s' \<Longrightarrow> single_flight s'"
proof (induction evs arbitrary: s)
  case Nil
  then show ?case by simp
next
  case (Cons ev evs)
  then show ?case
    by (auto split: option.splits dest: single_flight_step)
qed

lemma run_responses: "run s (map Response_error es) = Some (fold response_rejected es s)"
  by (induction es arbitrary: s) simp_all

lemma refreshing_responses:
  "isRefreshing s \<Longrightarrow>
     isRefreshing (fold response_rejected es s)
     \<and> refresh_calls (fold response_rejected es s) = refresh_calls s
     \<and> awaiting (fold response_rejected es s) = awaiting s"
proof (induction es arbitrary: s)
  case Nil
  then show ?case by simp
next
  case (Cons e es)
  have "isRefreshing (response_rejected e s)"
    using Cons.prems by (simp add: response_rejected_fields)
  from Cons.IH[OF this] Cons.prems show ?case
    by (simp add: refresh_calls_response response_rejected_fields)
qed

lemma episode:
  assumes "es \<noteq> []" "\<not> isRefreshing s" "\<forall>e\<in>set es. authentication_failure e s"
  shows "\<exists>s'. run s (map Response_error es) = Some s' \<and> refresh_calls s' = refresh_calls s + 1
     \<and> isRefreshing s' \<and> awaiting s' = awaiting s @ [err_config (hd es)]"
proof -
  from assms(1) obtain e es' where es: "es = e # es'" by (cases es) auto
  with assms have el: "authentication_failure e s" by simp
  let ?s1 = "response_rejected e s"
  have r1: "isRefreshing ?s1" using el by (simp add: response_rejected_fields)
  have "refresh_calls ?s1 = refresh_calls s + 1" "awaiting ?s1 = awaiting s @ [err_config e]"
    using el assms(2) by (simp_all add: refresh_calls_response response_rejected_fields)
  with refreshing_responses[OF r1, of es'] show ?thesis
    by (simp add: run_responses es)
qed

section \<open>The invariant: one replay for each request\<close>

lemma calls_of_queue:
  "length (filter (is_call r \<circ> (\<lambda>p. Call_api (request_of p) h)) q) = count_list q (Prom r)"
proof (induction q)
  case Nil
  then show ?case by simp
next
  case (Cons p q)
  then show ?case by (cases p) auto
qed

lemma calls_of_rejects: "filter (is_call r \<circ> (\<lambda>p. Rejected (f p) e)) q = []"
  by (induction q) simp_all

lemma count_list_remove1:
  "x \<in> set xs \<Longrightarrow> count_list xs y = count_list (remove1 x xs) y + (if x = y then 1 else 0)"
  by (induction xs) auto

lemma replays_fulfilled:
  "replays r' (refresh_fulfilled r t s) =
     replays r' s + count_list (failedQueue s) (Prom r') + (if r = r' then 1 else 0)"
  by (simp add: replays_def refresh_fulfilled_effects calls_of_queue)

lemma replays_failed: "replays r' (refresh_failed r e s) = replays r' s"
  by (simp add: replays_def refresh_failed_effects calls_of_rejects)

lemma replays_response: "replays r (response_rejected e s) = replays r s"
  by (simp add: replays_def response_rejected_cases)

lemma replays_awaiting_update: "replays r (s\<lparr>awaiting := xs\<rparr>) = replays r s"
  by (simp add: replays_def)

lemma occurrences_response:
  assumes "occurrences r s \<le> (if retry (requests s r) then 1 else 0)"
  shows "occurrences r (response_rejected e s)
    \<le> (if retry (requests (response_rejected e s) r) then 1 else 0)"
proof (cases "authentication_failure e s")
  case False
  with assms show ?thesis
    by (simp add: response_rejected_pass occurrences_def replays_def)
next
  case True
  show ?thesis
  proof (cases "r = err_config e")
    case False
    with assms True show ?thesis
      by (auto simp: occurrences_def replays_response response_rejected_fields split: if_splits)
  next
    case r: True
    with True have "\<not> retry (requests s r)" by (simp add: authentication_failure_def)
    with assms have "occurrences r s = 0" by simp
    with True r show ?thesis
      by (simp add: occurrences_def replays_response response_rejected_fields)
  qed
qed

lemma occurrences_fulfilled:
  assumes "r0 \<in> set (awaiting s)"
  shows "occurrences r (refresh_fulfilled r0 t (s\<lparr>awaiting := remove1 r0 (awaiting s)\<rparr>))
    = occurrences r s"
proof -
  have "count_list (awaiting s) r =
      count_list (remove1 r0 (awaiting s)) r + (if r0 = r then 1 else 0)"
    using assms by (rule count_list_remove1)
  then show ?thesis
    by (simp add: occurrences_def replays_fulfilled replays_awaiting_update
        refresh_fulfilled_fields)
qed

lemma occurrences_failed:
  assumes "r0 \<in> set (awaiting s)"
  shows "occurrences r (refresh_failed r0 e (s\<lparr>awaiting := remove1 r0 (awaiting s)\<rparr>))
    \<le> occurrences r s"
proof -
  have "count_list (awaiting s) r =
      count_list (remove1 r0 (awaiting s)) r + (if r0 = r then 1 else 0)"
    using assms by (rule count_list_remove1)
  then show ?thesis
    by (simp add: occurrences_def replays_failed replays_awaiting_update refresh_failed_fields)
qed

lemma retried_once_initial: "retried_once (initial ls href hdrs)"
  by (simp add: retried_once_def occurrences_def replays_def initial_def)

lemma retried_once_step:
  assumes "retried_once s" "step s ev = Some s'"
  shows "retried_once s'"
proof (cases ev)
  case (Response_error e)
  with assms have s': "s' = response_rejected e s" by simp
  show ?thesis unfolding retried_once_def
  proof
    fix r
    from assms(1) have "occurrences r s \<le> (if retry (requests s r) then 1 else 0)"
      by (simp add: retried_once_def)
    then show "occurrences r s' \<le> (if retry (requests s' r) then 1 else 0)"
      unfolding s' by (rule occurrences_response)
  qed
next
  case (Refresh_fulfilled r0 t)
  with assms have mem: "r0 \<in> set (awaiting s)"
    and s': "s' = refresh_fulfilled r0 t (s\<lparr>awaiting := remove1 r0 (awaiting s)\<rparr>)"
    by (auto split: if_splits)
  show ?thesis unfolding retried_once_def
  proof
    fix r
    from assms(1) have "occurrences r s \<le> (if retry (requests s r) then 1 else 0)"
      by (simp add: retried_once_def)
    then show "occurrences r s' \<le> (if retry (requests s' r) then 1 else 0)"
      unfolding s' by (simp add: occurrences_fulfilled[OF mem] refresh_fulfilled_fields)
  qed
next
  case (Refresh_rejected r0 e)
  with assms have mem: "r0 \<in> set (awaiting s)"
    and s': "s' = refresh_failed r0 e (s\<lparr>awaiting := remove1 r0 (awaiting s)\<rparr>)"
    by (auto split: if_splits)
  show ?thesis unfolding retried_once_def
  proof
    fix r
    from assms(1) have "occurrences r s \<le> (if retry (requests s r) then 1 else 0)"
      by (simp add: retried_once_def)
    with occurrences_failed[OF mem, of r e]
    show "occurrences r s' \<le> (if retry (requests s' r) then 1 else 0)"
      unfolding s' by (simp add: refresh_failed_fields)
  qed
qed

lemma retried_once_run: "retried_once s \<Longrightarrow> run s evs = Some s' \<Longrightarrow> retried_once s'"
proof (induction evs arbitrary: s)
  case Nil
  then show ?case by simp
next
  case (Cons ev evs)
  then show ?case
    by (auto split: option.splits dest: retried_once_step)
qed

section \<open>The request interceptor and the sentinel\<close>

text \<open>
  Claim C5. If the stored access token is the text \<^verbatim>\<open>undefined\<close>, is absent or is the
  empty string, the request interceptor attaches no \<^verbatim>\<open>Authorization\<close> header: the
  descriptor leaves the interceptor with the header it came with, so a descriptor that
  had none still has none.
\<close>

theorem sentinel_token_not_attached:
  "getItem ls ''access_token'' = Some ''undefined''
     \<or> getItem ls ''access_token'' = None
     \<or> getItem ls ''access_token'' = Some [] \<Longrightarrow>
   headers (request_interceptor ls cfg) ''Authorization'' = headers cfg ''Authorization''"
  by (auto simp: interceptor_Authorization strip_quotes_Nil strip_quotes_undefined)

theorem sentinel_token_not_attached_witness:
  "getItem [''access_token'' \<mapsto> ''undefined''] ''access_token'' = Some ''undefined''
   \<and> headers (request_interceptor [''access_token'' \<mapsto> ''undefined''] sample_config)
        ''Authorization'' = None
   \<and> getItem Map.empty ''access_token'' = None
   \<and> headers (request_interceptor Map.empty sample_config) ''Authorization'' = None
   \<and> getItem [''access_token'' \<mapsto> []] ''access_token'' = Some []
   \<and> headers (request_interceptor [''access_token'' \<mapsto> []] sample_config)
        ''Authorization'' = None"
proof -
  have a: "getItem [''access_token'' \<mapsto> ''undefined''] ''access_token'' = Some ''undefined''"
    and b: "getItem Map.empty ''access_token'' = None"
    and c: "getItem [''access_token'' \<mapsto> []] ''access_token'' = Some []"
    by (simp_all add: getItem_def)
  have none: "headers sample_config ''Authorization'' = None"
    by (simp add: sample_config_def)
  from a b c
    sentinel_token_not_attached[of "[''access_token'' \<mapsto> ''undefined'']" sample_config]
    sentinel_token_not_attached[of Map.empty sample_config]
    sentinel_token_not_attached[of "[''access_token'' \<mapsto> []]" sample_config]
  show ?thesis by (simp add: none)
qed

section \<open>Errors the coordinator does not take up\<close>

text \<open>
  Claim C7. A response error with a status other than 401, a 401 on a request already
  marked as retried, or a 401 while the store holds no refresh token is rejected to the
  caller as it is: the handler leaves the state as it was but for that rejection, which
  carries the error it received. So the request is not queued and not marked, no
  refresh request is made, no handler is left waiting, and the store is not written.
\<close>

theorem other_errors_rejected_unchanged:
  "status e \<noteq> Some 401
     \<or> retry (requests s (err_config e))
     \<or> getItem (storage s) ''refresh_token'' = None \<Longrightarrow>
   response_rejected e s = s\<lparr>effects := effects s @ [Rejected (err_config e) e]\<rparr>
   \<and> failedQueue (response_rejected e s) = failedQueue s
   \<and> refresh_calls (response_rejected e s) = refresh_calls s
   \<and> awaiting (response_rejected e s) = awaiting s
   \<and> storage (response_rejected e s) = storage s"
proof -
  assume "status e \<noteq> Some 401 \<or> retry (requests s (err_config e))
    \<or> getItem (storage s) ''refresh_token'' = None"
  then have "\<not> authentication_failure e s"
    by (auto simp: authentication_failure_def)
  then show ?thesis
    by (simp add: response_rejected_pass refresh_calls_def)
qed

theorem other_errors_rejected_unchanged_witness:
  "status (refresh_error\<lparr>err_config := 11\<rparr>) \<noteq> Some 401
   \<and> effects (response_rejected (refresh_error\<lparr>err_config := 11\<rparr>) sample_initial)
       = [Rejected 11 (refresh_error\<lparr>err_config := 11\<rparr>)]
   \<and> failedQueue (response_rejected (refresh_error\<lparr>err_config := 11\<rparr>) sample_initial) = []
   \<and> refresh_calls (response_rejected (refresh_error\<lparr>err_config := 11\<rparr>) sample_initial) = 0
   \<and> getItem (storage (initial Map.empty ''/'' (\<lambda>r. Map.empty))) ''refresh_token'' = None
   \<and> effects (response_rejected (unauthorized 11) (initial Map.empty ''/'' (\<lambda>r. Map.empty)))
       = [Rejected 11 (unauthorized 11)]
   \<and> retry (requests (response_rejected (unauthorized 11) sample_initial) 11)
   \<and> failedQueue (response_rejected (unauthorized 11)
        (response_rejected (unauthorized 11) sample_initial)) = []
   \<and> refresh_calls (response_rejected (unauthorized 11)
        (response_rejected (unauthorized 11) sample_initial)) = 1"
proof -
  let ?e = "refresh_error\<lparr>err_config := 11\<rparr>"
  let ?s0 = "initial Map.empty ''/'' (\<lambda>r. Map.empty)"
  let ?s1 = "response_rejected (unauthorized 11) sample_initial"
  have h1: "status ?e \<noteq> Some 401"
    by (simp add: refresh_error_def)
  have h2: "getItem (storage ?s0) ''refresh_token'' = None"
    by (simp add: initial_def getItem_def)
  have af: "authentication_failure (unauthorized 11) sample_initial"
    by (simp add: authentication_failure_def unauthorized_def sample_initial_def initial_def
        sample_storage_def getItem_def)
  have idle: "\<not> isRefreshing sample_initial" "failedQueue sample_initial = []"
    "refresh_calls sample_initial = 0"
    by (simp_all add: sample_initial_def initial_def refresh_calls_def)
  have s1: "failedQueue ?s1 = []" "refresh_calls ?s1 = 1"
    by (simp_all add: response_rejected_fields refresh_calls_response af idle)
  have h3: "retry (requests ?s1 (err_config (unauthorized 11)))"
    by (simp add: response_rejected_fields af)
  from other_errors_rejected_unchanged[of ?e sample_initial] h1
  have a: "response_rejected ?e sample_initial =
      sample_initial\<lparr>effects := effects sample_initial @ [Rejected (err_config ?e) ?e]\<rparr>"
    "failedQueue (response_rejected ?e sample_initial) = failedQueue sample_initial"
    "refresh_calls (response_rejected ?e sample_initial) = refresh_calls sample_initial"
    by blast+
  from other_errors_rejected_unchanged[of "unauthorized 11" ?s0] h2
  have b: "response_rejected (unauthorized 11) ?s0 =
      ?s0\<lparr>effects := effects ?s0 @ [Rejected (err_config (unauthorized 11)) (unauthorized 11)]\<rparr>"
    by blast
  from other_errors_rejected_unchanged[of "unauthorized 11" ?s1] h3
  have c: "failedQueue (response_rejected (unauthorized 11) ?s1) = failedQueue ?s1"
    "refresh_calls (response_rejected (unauthorized 11) ?s1) = refresh_calls ?s1"
    by blast+
  have a': "effects (response_rejected ?e sample_initial) = [Rejected 11 ?e]"
    by (simp add: a(1)) (simp add: sample_initial_def initial_def)
  have b': "effects (response_rejected (unauthorized 11) ?s0) = [Rejected 11 (unauthorized 11)]"
    by (simp add: b) (simp add: initial_def unauthorized_def)
  from h1 h2 h3 a' b' a(2,3) c s1 idle show ?thesis
    by (simp add: unauthorized_def)
qed

section \<open>The settled refresh\<close>

text \<open>
  The replayed request passes the request interceptor again before it is sent. The
  interceptor then reads the token the handler has just stored, so the header it leaves
  is the bearer value of the new token, read with the surrounding quotes stripped where
  that reading is usable.
\<close>

lemma replay_through_request_interceptor:
  "headers (request_interceptor (storage (refresh_fulfilled r t s))
      (requests (refresh_fulfilled r t s) r)) ''Authorization'' =
     Some (''Bearer '' @
       (if strip_quotes t \<noteq> [] \<and> strip_quotes t \<noteq> ''undefined'' then strip_quotes t else t))"
  by (simp add: interceptor_Authorization refresh_fulfilled_fields getItem_def setItem_def)

text \<open>
  Claim C3. When the refresh request succeeds, the resumed handler writes the new
  access token into the store under \<^verbatim>\<open>access_token\<close>, sets the client's default
  \<^verbatim>\<open>Authorization\<close> header to the new bearer value, and hands requests back to the
  client: first every queued request, in the order of the queue, then the request that
  started the refresh, each carrying the new bearer value, and nothing else.
\<close>

theorem refresh_success_replays_all:
  "getItem (storage (refresh_fulfilled r t s)) ''access_token'' = Some t
   \<and> defaults_Authorization (refresh_fulfilled r t s) = Some (''Bearer '' @ t)
   \<and> effects (refresh_fulfilled r t s) =
       effects s
       @ map (\<lambda>p. Call_api (request_of p) (Some (''Bearer '' @ t))) (failedQueue s)
       @ [Call_api r (Some (''Bearer '' @ t))]
   \<and> headers (requests (refresh_fulfilled r t s) r) ''Authorization'' = Some (''Bearer '' @ t)"
  by (simp add: refresh_fulfilled_fields refresh_fulfilled_effects getItem_def setItem_def)

text \<open>
  Claim C4. When the refresh request fails, the resumed handler rejects every queued
  continuation with the refresh error, in the order of the queue, removes the access
  token and the refresh token from the store, sends the browser to \<^verbatim>\<open>/\<close>, and rejects
  the promise of the request that started the refresh with the same error.
\<close>

theorem refresh_failure_tears_down:
  "effects (refresh_failed r e s) =
       effects s @ map (\<lambda>p. Rejected (request_of p) e) (failedQueue s) @ [Rejected r e]
   \<and> getItem (storage (refresh_failed r e s)) ''access_token'' = None
   \<and> getItem (storage (refresh_failed r e s)) ''refresh_token'' = None
   \<and> location_href (refresh_failed r e s) = ''/''"
  by (simp add: refresh_failed_fields refresh_failed_effects getItem_def removeItem_def)

section \<open>Removing an element from a displayed list\<close>

lemma removeMember_exact:
  "removeMember userId prev = filter (\<lambda>m. user_id m \<noteq> userId) prev
   \<and> set (removeMember userId prev) = {m \<in> set prev. user_id m \<noteq> userId}"
  by (simp add: removeMember_def)

lemma handleDeleteOrg_list: "organizations (fst (handleDeleteOrg org True p ls)) = []"
  by (simp add: handleDeleteOrg_def Let_def)

text \<open>
  Claim C9. Removing the member with a given id leaves exactly the other members, but
  deleting an organization empties the displayed list: with the organizations
  \<open>org_a\<close> and \<open>org_b\<close> shown, a successful deletion of \<open>org_a\<close> leaves no
  organization on the page, where the list without \<open>org_a\<close> is \<open>[org_b]\<close>.
\<close>

theorem handleDeleteOrg_empties_list:
  "organizations (fst (handleDeleteOrg org_a True sample_page sample_storage)) = []
   \<and> filter (\<lambda>x. org_id x \<noteq> org_id org_a) (organizations sample_page) = [org_b]"
  by (simp add: handleDeleteOrg_list sample_page_def org_a_def org_b_def)

section \<open>The sample run, evaluated\<close>

lemmas sample_defs = sample_initial_def initial_def sample_storage_def unauthorized_def
  getItem_def setItem_def removeItem_def first_episode_def sample_trace_def

lemmas handler_defs = response_rejected_def refresh_fulfilled_def refresh_failed_def
  processQueue_def settle_prom_def call_api_def set_Authorization_def reject_def Let_def

lemma run_Some_the: "run s evs \<noteq> None \<Longrightarrow> run s evs = Some (the (run s evs))"
  by simp

lemma first_refresh_run:
  "run sample_initial [Response_error (unauthorized 11)]
     = Some (response_rejected (unauthorized 11) sample_initial)"
  by simp

lemma first_refresh_state:
  "isRefreshing (response_rejected (unauthorized 11) sample_initial)"
  "awaiting (response_rejected (unauthorized 11) sample_initial) = [11]"
  "failedQueue (response_rejected (unauthorized 11) sample_initial) = []"
  "\<not> retry (requests (response_rejected (unauthorized 11) sample_initial) 12)"
  "effects (response_rejected (unauthorized 11) sample_initial) = [Post_refresh (Some ''R1'')]"
  by (simp_all add: sample_defs handler_defs)

lemma second_refresh_run: "run sample_initial sample_trace = Some second_refresh"
  unfolding second_refresh_def
  by (rule run_Some_the) (simp add: sample_defs handler_defs)

lemma second_refresh_state:
  "isRefreshing second_refresh"
  "awaiting second_refresh = [13]"
  "failedQueue second_refresh = []"
  "retry (requests second_refresh 11)"
  "effects second_refresh =
     [Post_refresh (Some ''R1''), Call_api 12 (Some ''Bearer T2''),
      Call_api 11 (Some ''Bearer T2''), Post_refresh (Some ''R1'')]"
  by (simp_all add: second_refresh_def sample_defs handler_defs)

section \<open>One refresh in flight\<close>

lemma refresh_calls_initial: "refresh_calls (initial ls href hdrs) = 0"
  by (simp add: refresh_calls_def initial_def)

lemma awaiting_initial: "awaiting (initial ls href hdrs) = []"
  by (simp add: initial_def)

lemma refreshing_authentication_failure:
  assumes "single_flight s" "isRefreshing s"
  shows "authentication_failure e s = (status e = Some 401 \<and> \<not> retry (requests s (err_config e)))"
  using assms by (auto simp: single_flight_def authentication_failure_def)

text \<open>
  Claim C1, as the code has it. In every state that a run of handler steps reaches from
  the loaded module, at most one handler waits for a refresh request, one waits exactly
  when \<^verbatim>\<open>isRefreshing\<close> is set, and the refresh requests made so far are those that
  have settled and the one in flight. While a refresh is in flight no failure starts a
  second one: a request that fails with 401 and is not yet marked as retried is pushed
  onto the queue; any other failure is rejected to its caller and the queue stays as it
  is. From an idle state, any number of authentication failures handled one after the
  other, with no settled refresh in between, make exactly one refresh request.
\<close>

theorem one_refresh_in_flight:
  "run (initial ls href hdrs) evs = Some s \<Longrightarrow>
     length (awaiting s) \<le> 1
   \<and> isRefreshing s = (awaiting s \<noteq> [])
   \<and> refresh_calls s = settled evs + length (awaiting s)
   \<and> (\<forall>e. isRefreshing s \<longrightarrow>
          refresh_calls (response_rejected e s) = refresh_calls s
        \<and> awaiting (response_rejected e s) = awaiting s
        \<and> (status e = Some 401 \<and> \<not> retry (requests s (err_config e)) \<longrightarrow>
              failedQueue (response_rejected e s) = failedQueue s @ [Prom (err_config e)])
        \<and> (status e \<noteq> Some 401 \<or> retry (requests s (err_config e)) \<longrightarrow>
              failedQueue (response_rejected e s) = failedQueue s
            \<and> effects (response_rejected e s) = effects s @ [Rejected (err_config e) e]))
   \<and> (\<forall>es. \<not> isRefreshing s \<and> es \<noteq> [] \<and> (\<forall>e\<in>set es. authentication_failure e s) \<longrightarrow>
          (\<exists>s'. run s (map Response_error es) = Some s'
             \<and> refresh_calls s' = refresh_calls s + 1
             \<and> awaiting s' = [err_config (hd es)]))"
proof -
  assume run: "run (initial ls href hdrs) evs = Some s"
  have sf: "single_flight s"
    using single_flight_initial run by (rule single_flight_run)
  then have one: "length (awaiting s) \<le> 1" and flag: "isRefreshing s = (awaiting s \<noteq> [])"
    by (simp_all add: single_flight_def)
  have count: "refresh_calls s = settled evs + length (awaiting s)"
    using in_flight_run[OF run] by (simp add: refresh_calls_initial awaiting_initial)
  have busy: "refresh_calls (response_rejected e s) = refresh_calls s
        \<and> awaiting (response_rejected e s) = awaiting s
        \<and> (status e = Some 401 \<and> \<not> retry (requests s (err_config e)) \<longrightarrow>
              failedQueue (response_rejected e s) = failedQueue s @ [Prom (err_config e)])
        \<and> (status e \<noteq> Some 401 \<or> retry (requests s (err_config e)) \<longrightarrow>
              failedQueue (response_rejected e s) = failedQueue s
            \<and> effects (response_rejected e s) = effects s @ [Rejected (err_config e) e])"
    if r: "isRefreshing s" for e
  proof -
    note af = refreshing_authentication_failure[OF sf r, of e]
    have 1: "refresh_calls (response_rejected e s) = refresh_calls s"
      and 2: "awaiting (response_rejected e s) = awaiting s"
      using r by (simp_all add: refresh_calls_response response_rejected_fields)
    have 3: "failedQueue (response_rejected e s) = failedQueue s @ [Prom (err_config e)]"
      if "status e = Some 401 \<and> \<not> retry (requests s (err_config e))"
      using that r af by (simp add: response_rejected_fields)
    have 4: "failedQueue (response_rejected e s) = failedQueue s
            \<and> effects (response_rejected e s) = effects s @ [Rejected (err_config e) e]"
      if "status e \<noteq> Some 401 \<or> retry (requests s (err_config e))"
    proof -
      from that af have "\<not> authentication_failure e s" by auto
      then show ?thesis by (simp add: response_rejected_pass)
    qed
    from 1 2 3 4 show ?thesis by blast
  qed
  have idle: "\<exists>s'. run s (map Response_error es) = Some s'
             \<and> refresh_calls s' = refresh_calls s + 1
             \<and> awaiting s' = [err_config (hd es)]"
    if "\<not> isRefreshing s \<and> es \<noteq> [] \<and> (\<forall>e\<in>set es. authentication_failure e s)" for es
  proof -
    from that flag have "awaiting s = []" by simp
    with episode[of es s] that show ?thesis by auto
  qed
  from one flag count busy idle show ?thesis by blast
qed

theorem one_refresh_in_flight_witness:
  "(\<exists>s. run sample_initial [Response_error (unauthorized 11)] = Some s
      \<and> isRefreshing s \<and> awaiting s = [11] \<and> refresh_calls s = 1
      \<and> status (unauthorized 12) = Some 401 \<and> \<not> retry (requests s 12)
      \<and> failedQueue (response_rejected (unauthorized 12) s) = [Prom 12]
      \<and> refresh_calls (response_rejected (unauthorized 12) s) = 1)
   \<and> run sample_initial [] = Some sample_initial
   \<and> \<not> isRefreshing sample_initial
   \<and> authentication_failure (unauthorized 11) sample_initial
   \<and> authentication_failure (unauthorized 12) sample_initial
   \<and> (\<exists>s'. run sample_initial [Response_error (unauthorized 11), Response_error (unauthorized 12)]
              = Some s'
         \<and> refresh_calls s' = 1 \<and> awaiting s' = [11])"
proof -
  let ?s1 = "response_rejected (unauthorized 11) sample_initial"
  note T1 = one_refresh_in_flight[of sample_storage "''/orgs''" "\<lambda>r. Map.empty"
      "[Response_error (unauthorized 11)]" ?s1, folded sample_initial_def, OF first_refresh_run]
  have st: "status (unauthorized 12) = Some 401" "err_config (unauthorized 12) = 12"
    by (simp_all add: unauthorized_def)
  from T1 have calls: "refresh_calls ?s1 = 1"
    by (simp add: settled_def first_refresh_state)
  from T1 first_refresh_state(1)
  have busy: "refresh_calls (response_rejected (unauthorized 12) ?s1) = refresh_calls ?s1"
    "status (unauthorized 12) = Some 401 \<and> \<not> retry (requests ?s1 (err_config (unauthorized 12)))
      \<longrightarrow> failedQueue (response_rejected (unauthorized 12) ?s1)
          = failedQueue ?s1 @ [Prom (err_config (unauthorized 12))]"
    by blast+
  from busy st first_refresh_state calls
  have queued: "failedQueue (response_rejected (unauthorized 12) ?s1) = [Prom 12]"
    "refresh_calls (response_rejected (unauthorized 12) ?s1) = 1"
    by simp_all
  have part1: "\<exists>s. run sample_initial [Response_error (unauthorized 11)] = Some s
      \<and> isRefreshing s \<and> awaiting s = [11] \<and> refresh_calls s = 1
      \<and> status (unauthorized 12) = Some 401 \<and> \<not> retry (requests s 12)
      \<and> failedQueue (response_rejected (unauthorized 12) s) = [Prom 12]
      \<and> refresh_calls (response_rejected (unauthorized 12) s) = 1"
    using first_refresh_run first_refresh_state calls st queued by blast
  have r0: "run sample_initial [] = Some sample_initial" by simp
  note T0 = one_refresh_in_flight[of sample_storage "''/orgs''" "\<lambda>r. Map.empty" "[]"
      sample_initial, folded sample_initial_def, OF r0]
  have idle: "\<not> isRefreshing sample_initial" "refresh_calls sample_initial = 0"
    by (simp_all add: sample_initial_def initial_def refresh_calls_def)
  have af: "authentication_failure (unauthorized 11) sample_initial"
    "authentication_failure (unauthorized 12) sample_initial"
    by (simp_all add: authentication_failure_def sample_defs)
  from T0 have "\<not> isRefreshing sample_initial
      \<and> [unauthorized 11, unauthorized 12] \<noteq> []
      \<and> (\<forall>e\<in>set [unauthorized 11, unauthorized 12]. authentication_failure e sample_initial)
    \<longrightarrow> (\<exists>s'. run sample_initial (map Response_error [unauthorized 11, unauthorized 12]) = Some s'
          \<and> refresh_calls s' = refresh_calls sample_initial + 1
          \<and> awaiting s' = [err_config (hd [unauthorized 11, unauthorized 12])])"
    by blast
  with idle af
  have part2: "\<exists>s'. run sample_initial
        [Response_error (unauthorized 11), Response_error (unauthorized 12)] = Some s'
      \<and> refresh_calls s' = 1 \<and> awaiting s' = [11]"
    by (simp add: unauthorized_def)
  from part1 r0 idle(1) af part2 show ?thesis by blast
qed

text \<open>
  The claim as the specification words it fails on a request that is already marked: in
  the sample run the replayed request 11 fails with 401 again while the second refresh is
  in flight, and it is rejected, not queued. And with no refresh token in the store, two
  requests that fail with 401 make no refresh request at all.
\<close>

theorem retried_request_not_queued:
  "run sample_initial sample_trace = Some second_refresh
   \<and> isRefreshing second_refresh
   \<and> status (unauthorized 11) = Some 401
   \<and> failedQueue second_refresh = []
   \<and> failedQueue (response_rejected (unauthorized 11) second_refresh) = []
   \<and> effects (response_rejected (unauthorized 11) second_refresh)
       = effects second_refresh @ [Rejected 11 (unauthorized 11)]
   \<and> run (initial Map.empty ''/orgs'' (\<lambda>r. Map.empty))
        [Response_error (unauthorized 11), Response_error (unauthorized 12)]
       = Some (fold response_rejected [unauthorized 11, unauthorized 12]
                (initial Map.empty ''/orgs'' (\<lambda>r. Map.empty)))
   \<and> refresh_calls (fold response_rejected [unauthorized 11, unauthorized 12]
        (initial Map.empty ''/orgs'' (\<lambda>r. Map.empty))) = 0"
proof -
  have naf: "\<not> authentication_failure (unauthorized 11) second_refresh"
    by (simp add: authentication_failure_def second_refresh_state unauthorized_def)
  have a: "failedQueue (response_rejected (unauthorized 11) second_refresh) = []"
    "effects (response_rejected (unauthorized 11) second_refresh)
       = effects second_refresh @ [Rejected 11 (unauthorized 11)]"
    by (simp_all add: response_rejected_pass[OF naf] second_refresh_state)
      (simp add: unauthorized_def)
  have b: "refresh_calls (fold response_rejected [unauthorized 11, unauthorized 12]
        (initial Map.empty ''/orgs'' (\<lambda>r. Map.empty))) = 0"
    by (simp add: refresh_calls_response authentication_failure_def response_rejected_fields
        refresh_calls_initial) (simp add: initial_def getItem_def)
  show ?thesis
    using second_refresh_run second_refresh_state(1,3) a b
    by (simp add: unauthorized_def)
qed

section \<open>One replay for each request\<close>

lemma count_list_member: "x \<in> set xs \<Longrightarrow> 0 < count_list xs x"
  by (induction xs) auto

text \<open>
  Claim C2. In every state that a run of handler steps reaches from the loaded module, a
  request has been handed back to the client at most once; a request that has been
  handed back, that waits in the queue or whose handler waits for the refresh is marked
  as retried, so the mark is set before any replay; and when a request that has been
  replayed fails again, with 401 or otherwise, the handler only rejects it to its
  caller: it is not queued, no handler is left waiting and no refresh request is made.
\<close>

theorem replayed_at_most_once:
  "run (initial ls href hdrs) evs = Some s \<Longrightarrow>
     replays r s \<le> 1
   \<and> (0 < replays r s \<or> Prom r \<in> set (failedQueue s) \<or> r \<in> set (awaiting s)
        \<longrightarrow> retry (requests s r))
   \<and> (\<forall>e. err_config e = r \<and> 0 < replays r s \<longrightarrow>
          response_rejected e s = s\<lparr>effects := effects s @ [Rejected r e]\<rparr>
        \<and> failedQueue (response_rejected e s) = failedQueue s
        \<and> awaiting (response_rejected e s) = awaiting s
        \<and> refresh_calls (response_rejected e s) = refresh_calls s)"
proof -
  assume run: "run (initial ls href hdrs) evs = Some s"
  have "retried_once s"
    using retried_once_initial run by (rule retried_once_run)
  then have occ: "occurrences r s \<le> (if retry (requests s r) then 1 else 0)"
    by (simp add: retried_once_def)
  then have one: "replays r s \<le> 1"
    by (simp add: occurrences_def split: if_splits)
  have mark: "retry (requests s r)"
    if "0 < replays r s \<or> Prom r \<in> set (failedQueue s) \<or> r \<in> set (awaiting s)"
  proof -
    from that have "0 < occurrences r s"
      using count_list_member[of "Prom r" "failedQueue s"] count_list_member[of r "awaiting s"]
      by (auto simp: occurrences_def)
    with occ show ?thesis by (simp split: if_splits)
  qed
  have again: "response_rejected e s = s\<lparr>effects := effects s @ [Rejected r e]\<rparr>
        \<and> failedQueue (response_rejected e s) = failedQueue s
        \<and> awaiting (response_rejected e s) = awaiting s
        \<and> refresh_calls (response_rejected e s) = refresh_calls s"
    if "err_config e = r \<and> 0 < replays r s" for e
  proof -
    from that mark have "\<not> authentication_failure e s"
      by (simp add: authentication_failure_def)
    with that show ?thesis
      by (simp add: response_rejected_pass refresh_calls_def)
  qed
  from one mark again show ?thesis by blast
qed

theorem replayed_at_most_once_witness:
  "run sample_initial sample_trace = Some second_refresh
   \<and> replays 11 second_refresh = 1
   \<and> retry (requests second_refresh 11)
   \<and> err_config (unauthorized 11) = 11
   \<and> effects (response_rejected (unauthorized 11) second_refresh)
       = effects second_refresh @ [Rejected 11 (unauthorized 11)]
   \<and> failedQueue (response_rejected (unauthorized 11) second_refresh) = []
   \<and> awaiting (response_rejected (unauthorized 11) second_refresh) = [13]
   \<and> refresh_calls (response_rejected (unauthorized 11) second_refresh) = 2"
proof -
  note T = replayed_at_most_once[of sample_storage "''/orgs''" "\<lambda>r. Map.empty"
      sample_trace second_refresh 11, folded sample_initial_def, OF second_refresh_run]
  have rep: "replays 11 second_refresh = 1"
    by (simp add: replays_def second_refresh_state)
  have calls: "refresh_calls second_refresh = 2"
    by (simp add: refresh_calls_def second_refresh_state)
  have cfg: "err_config (unauthorized 11) = 11"
    by (simp add: unauthorized_def)
  have pos: "err_config (unauthorized 11) = 11 \<and> 0 < replays 11 second_refresh"
    using rep cfg by simp
  from T pos have marked: "retry (requests second_refresh 11)"
    by blast
  from T pos
  have "response_rejected (unauthorized 11) second_refresh
      = second_refresh\<lparr>effects := effects second_refresh @ [Rejected 11 (unauthorized 11)]\<rparr>"
    "failedQueue (response_rejected (unauthorized 11) second_refresh) = failedQueue second_refresh"
    "awaiting (response_rejected (unauthorized 11) second_refresh) = awaiting second_refresh"
    "refresh_calls (response_rejected (unauthorized 11) second_refresh)
      = refresh_calls second_refresh"
    by blast+
  then have "effects (response_rejected (unauthorized 11) second_refresh)
      = effects second_refresh @ [Rejected 11 (unauthorized 11)]"
    "failedQueue (response_rejected (unauthorized 11) second_refresh) = []"
    "awaiting (response_rejected (unauthorized 11) second_refresh) = [13]"
    "refresh_calls (response_rejected (unauthorized 11) second_refresh) = 2"
    by (simp_all add: second_refresh_state calls)
  with second_refresh_run rep marked cfg show ?thesis by blast
qed

section \<open>Back to idle\<close>

text \<open>
  Claim C10. When the refresh request settles, by success or by failure, in a state that
  a run of handler steps has reached, the resumed handler leaves the coordinator idle:
  \<^verbatim>\<open>isRefreshing\<close> is false, \<^verbatim>\<open>failedQueue\<close> is empty and no handler waits. Going
  through the queue once more would settle no continuation again, and the next
  authentication failure starts a refresh of its own.
\<close>

theorem settled_refresh_leaves_idle:
  "run (initial ls href hdrs) evs = Some s \<Longrightarrow> is_settle ev \<Longrightarrow> step s ev = Some s' \<Longrightarrow>
     \<not> isRefreshing s' \<and> failedQueue s' = [] \<and> awaiting s' = []
   \<and> effects (processQueue er tok s') = effects s'
   \<and> (\<forall>e. authentication_failure e s' \<longrightarrow>
          isRefreshing (response_rejected e s')
        \<and> refresh_calls (response_rejected e s') = refresh_calls s' + 1
        \<and> awaiting (response_rejected e s') = [err_config e])"
proof -
  assume run: "run (initial ls href hdrs) evs = Some s"
    and settle: "is_settle ev" and step: "step s ev = Some s'"
  have sf: "single_flight s"
    using single_flight_initial run by (rule single_flight_run)
  have sf': "single_flight s'"
    using sf step by (rule single_flight_step)
  have idle: "\<not> isRefreshing s' \<and> failedQueue s' = []"
  proof (cases ev)
    case (Response_error e)
    with settle show ?thesis by simp
  next
    case (Refresh_fulfilled r t)
    with step show ?thesis
      by (auto simp: refresh_fulfilled_fields split: if_splits)
  next
    case (Refresh_rejected r e)
    with step show ?thesis
      by (auto simp: refresh_failed_fields split: if_splits)
  qed
  with sf' have none: "awaiting s' = []"
    by (simp add: single_flight_def)
  from idle have again: "effects (processQueue er tok s') = effects s'"
    by (simp add: processQueue_empty)
  have fresh: "isRefreshing (response_rejected e s')
        \<and> refresh_calls (response_rejected e s') = refresh_calls s' + 1
        \<and> awaiting (response_rejected e s') = [err_config e]"
    if "authentication_failure e s'" for e
    using that idle none by (simp add: response_rejected_fields refresh_calls_response)
  from idle none again fresh show ?thesis by blast
qed

theorem settled_refresh_leaves_idle_witness:
  "(\<exists>s s'. run sample_initial [Response_error (unauthorized 11), Response_error (unauthorized 12)]
        = Some s
      \<and> is_settle (Refresh_fulfilled 11 ''T2'')
      \<and> step s (Refresh_fulfilled 11 ''T2'') = Some s'
      \<and> \<not> isRefreshing s' \<and> failedQueue s' = [] \<and> awaiting s' = []
      \<and> authentication_failure (unauthorized 13) s'
      \<and> isRefreshing (response_rejected (unauthorized 13) s')
      \<and> refresh_calls (response_rejected (unauthorized 13) s') = refresh_calls s' + 1)
   \<and> (\<exists>s s'. run sample_initial [Response_error (unauthorized 11), Response_error (unauthorized 12)]
        = Some s
      \<and> is_settle (Refresh_rejected 11 refresh_error)
      \<and> step s (Refresh_rejected 11 refresh_error) = Some s'
      \<and> \<not> isRefreshing s' \<and> failedQueue s' = [] \<and> awaiting s' = [])"
proof -
  let ?s2 = "response_rejected (unauthorized 12) (response_rejected (unauthorized 11) sample_initial)"
  let ?ok = "refresh_fulfilled 11 ''T2'' (?s2\<lparr>awaiting := remove1 11 (awaiting ?s2)\<rparr>)"
  let ?ko = "refresh_failed 11 refresh_error (?s2\<lparr>awaiting := remove1 11 (awaiting ?s2)\<rparr>)"
  have run: "run sample_initial [Response_error (unauthorized 11), Response_error (unauthorized 12)]
      = Some ?s2"
    by simp
  have mem: "11 \<in> set (awaiting ?s2)"
    by (simp add: sample_defs handler_defs)
  then have ok: "step ?s2 (Refresh_fulfilled 11 ''T2'') = Some ?ok"
    and ko: "step ?s2 (Refresh_rejected 11 refresh_error) = Some ?ko"
    by simp_all
  have settle: "is_settle (Refresh_fulfilled 11 ''T2'')" "is_settle (Refresh_rejected 11 refresh_error)"
    by simp_all
  note Tok = settled_refresh_leaves_idle[of sample_storage "''/orgs''" "\<lambda>r. Map.empty" _ ?s2
      "Refresh_fulfilled 11 ''T2''" ?ok, folded sample_initial_def, OF run settle(1) ok]
  note Tko = settled_refresh_leaves_idle[of sample_storage "''/orgs''" "\<lambda>r. Map.empty" _ ?s2
      "Refresh_rejected 11 refresh_error" ?ko, folded sample_initial_def, OF run settle(2) ko]
  have af: "authentication_failure (unauthorized 13) ?ok"
    by (simp add: authentication_failure_def refresh_fulfilled_fields response_rejected_fields)
      (simp add: sample_defs)
  from Tok af have fresh: "isRefreshing (response_rejected (unauthorized 13) ?ok)"
    "refresh_calls (response_rejected (unauthorized 13) ?ok) = refresh_calls ?ok + 1"
    by blast+
  from Tok have idle_ok: "\<not> isRefreshing ?ok" "failedQueue ?ok = []" "awaiting ?ok = []"
    by blast+
  from Tko have idle_ko: "\<not> isRefreshing ?ko" "failedQueue ?ko = []" "awaiting ?ko = []"
    by blast+
  from run settle ok ko af fresh idle_ok idle_ko show ?thesis by blast
qed

section \<open>The headers of an outgoing request\<close>

lemma login_access_token:
  "login (Inr (Some t, rt)) ls0 = Inr ls \<Longrightarrow> getItem ls ''access_token'' = Some (JSON_stringify t)"
  by (auto simp: login_def getItem_def setItem_def)

text \<open>
  Claim C6, as the code has it. The interceptor reads the stored access token and the
  stored active organization id with one leading and one trailing double quote
  stripped. When the token so read is non-empty and is not the sentinel, the request
  carries \<^verbatim>\<open>Authorization\<close> equal to \<^verbatim>\<open>Bearer\<close>, a space and that token; for a
  token stored by login that JSON writes without an escape, this is the token login
  received. When the organization id so read is non-empty, the request carries
  \<^verbatim>\<open>X-Org-ID\<close> equal to the id so read.
\<close>

theorem credentials_attached:
  "(\<forall>raw. getItem ls ''access_token'' = Some raw
          \<and> strip_quotes raw \<noteq> [] \<and> strip_quotes raw \<noteq> ''undefined'' \<longrightarrow>
      headers (request_interceptor ls cfg) ''Authorization''
        = Some (''Bearer '' @ strip_quotes raw))
   \<and> (\<forall>t rt ls0. login (Inr (Some t, rt)) ls0 = Inr ls
          \<and> json_plain t \<and> t \<noteq> [] \<and> t \<noteq> ''undefined'' \<longrightarrow>
      headers (request_interceptor ls cfg) ''Authorization'' = Some (''Bearer '' @ t))
   \<and> (\<forall>oid. getItem ls ''active_org_id'' = Some oid \<and> strip_quotes oid \<noteq> [] \<longrightarrow>
      headers (request_interceptor ls cfg) ''X-Org-ID'' = Some (strip_quotes oid))"
proof -
  have token: "headers (request_interceptor ls cfg) ''Authorization''
        = Some (''Bearer '' @ strip_quotes raw)"
    if "getItem ls ''access_token'' = Some raw
          \<and> strip_quotes raw \<noteq> [] \<and> strip_quotes raw \<noteq> ''undefined''" for raw
    using that by (simp add: interceptor_Authorization)
  have after_login: "headers (request_interceptor ls cfg) ''Authorization'' = Some (''Bearer '' @ t)"
    if h: "login (Inr (Some t, rt)) ls0 = Inr ls
          \<and> json_plain t \<and> t \<noteq> [] \<and> t \<noteq> ''undefined''" for t rt ls0
  proof -
    from h have "login (Inr (Some t, rt)) ls0 = Inr ls"
      by simp
    then have "getItem ls ''access_token'' = Some (JSON_stringify t)"
      by (rule login_access_token)
    moreover from h have "strip_quotes (JSON_stringify t) = t"
      by (simp add: strip_quotes_stringify concat_plain)
    ultimately show ?thesis
      using h by (simp add: interceptor_Authorization)
  qed
  have org: "headers (request_interceptor ls cfg) ''X-Org-ID'' = Some (strip_quotes oid)"
    if "getItem ls ''active_org_id'' = Some oid \<and> strip_quotes oid \<noteq> []" for oid
    using that by (simp add: interceptor_X_Org_ID)
  from token after_login org show ?thesis by blast
qed

theorem credentials_attached_witness:
  "getItem sample_storage ''access_token'' = Some ''T1''
   \<and> strip_quotes ''T1'' = ''T1''
   \<and> headers (request_interceptor sample_storage sample_config) ''Authorization''
       = Some ''Bearer T1''
   \<and> getItem sample_storage ''active_org_id'' = Some ''org-1''
   \<and> strip_quotes ''org-1'' = ''org-1''
   \<and> headers (request_interceptor sample_storage sample_config) ''X-Org-ID'' = Some ''org-1''
   \<and> json_plain ''T1''
   \<and> login (Inr (Some ''T1'', Some ''R1'')) Map.empty
       = (Inr (projr (login (Inr (Some ''T1'', Some ''R1'')) Map.empty)))
   \<and> headers (request_interceptor
        (projr (login (Inr (Some ''T1'', Some ''R1'')) Map.empty))
        sample_config) ''Authorization'' = Some ''Bearer T1''"
proof -
  let ?ls = "projr (login (Inr (Some ''T1'', Some ''R1'')) Map.empty)"
  have a: "getItem sample_storage ''access_token'' = Some ''T1''"
    "getItem sample_storage ''active_org_id'' = Some ''org-1''"
    by (simp_all add: getItem_def sample_storage_def)
  have b: "strip_quotes ''T1'' = ''T1''" "strip_quotes ''org-1'' = ''org-1''"
    by (simp_all add: strip_quotes_def dquote_def)
  have c: "json_plain ''T1''"
    by (simp add: json_plain_def json_quote_char_def dquote_def backslash_def)
  have d: "login (Inr (Some ''T1'', Some ''R1'')) Map.empty = (Inr ?ls)"
    by (simp add: login_def)
  note T = credentials_attached[of sample_storage sample_config]
  note L = credentials_attached[of ?ls sample_config]
  from T a b have "headers (request_interceptor sample_storage sample_config) ''Authorization''
       = Some (''Bearer '' @ strip_quotes ''T1'')"
    "headers (request_interceptor sample_storage sample_config) ''X-Org-ID''
       = Some (strip_quotes ''org-1'')"
    by simp_all
  with b have e: "headers (request_interceptor sample_storage sample_config) ''Authorization''
       = Some ''Bearer T1''"
    "headers (request_interceptor sample_storage sample_config) ''X-Org-ID'' = Some ''org-1''"
    by simp_all
  from L c d have "headers (request_interceptor ?ls sample_config) ''Authorization''
      = Some (''Bearer '' @ ''T1'')"
    by blast
  then have f: "headers (request_interceptor ?ls sample_config) ''Authorization''
      = Some ''Bearer T1''"
    by simp
  show ?thesis
    by (intro conjI) (rule a b c d e f)+
qed

text \<open>
  The claim as the specification words it fails where the stripping shows: an
  organization id stored between double quotes goes out without them, so the header is
  not the stored text; a stored id that is empty sends no header; and a token with a
  double quote in it comes back from login's JSON text with a backslash before the
  quote.
\<close>

theorem stored_org_id_not_sent_verbatim:
  "getItem [''active_org_id'' \<mapsto> dquote # ''org-1'' @ [dquote]] ''active_org_id''
       = Some (dquote # ''org-1'' @ [dquote])
   \<and> headers (request_interceptor [''active_org_id'' \<mapsto> dquote # ''org-1'' @ [dquote]]
        sample_config) ''X-Org-ID'' = Some ''org-1''
   \<and> dquote # ''org-1'' @ [dquote] \<noteq> ''org-1''
   \<and> getItem [''active_org_id'' \<mapsto> []] ''active_org_id'' = Some []
   \<and> headers (request_interceptor [''active_org_id'' \<mapsto> []] sample_config) ''X-Org-ID'' = None
   \<and> headers (request_interceptor
        (projr (login (Inr (Some [CHR ''a'', dquote, CHR ''b''], Some ''R1'')) Map.empty
          ))
        sample_config) ''Authorization''
       = Some (''Bearer '' @ [CHR ''a'', backslash, dquote, CHR ''b''])
   \<and> [CHR ''a'', backslash, dquote, CHR ''b''] \<noteq> [CHR ''a'', dquote, CHR ''b'']"
  by (simp add: interceptor_X_Org_ID interceptor_Authorization getItem_def setItem_def
      strip_quotes_def sample_config_def login_def JSON_stringify_def json_quote_char_def
      dquote_def backslash_def)

section \<open>The active organization id\<close>

lemma act_keeps_active_org:
  assumes "act a x = Some a'" "\<not> writes_active_org x"
  shows "getItem (storage (session a')) ''active_org_id''
    = getItem (storage (session a)) ''active_org_id''"
proof (cases x)
  case (Coordinator ev)
  with assms(1) obtain s' where s': "step (session a) ev = Some s'" "a' = a\<lparr>session := s'\<rparr>"
    by auto
  have "getItem (storage s') ''active_org_id'' = getItem (storage (session a)) ''active_org_id''"
  proof (cases ev)
    case (Response_error e)
    with s' show ?thesis by (auto simp: response_rejected_fields)
  next
    case (Refresh_fulfilled r t)
    with s' show ?thesis
      by (auto simp: refresh_fulfilled_fields getItem_def setItem_def split: if_splits)
  next
    case (Refresh_rejected r e)
    with s' show ?thesis
      by (auto simp: refresh_failed_fields getItem_def removeItem_def split: if_splits)
  qed
  with s' show ?thesis by simp
next
  case (Login response)
  with assms(1) show ?thesis
    by (auto simp: login_def put_def getItem_def setItem_def split: sum.splits prod.splits)
qed (use assms in simp_all)

text \<open>
  Claim C8, as the code has it. A token refresh leaves the stored active organization id
  as it is, when it succeeds and when it fails and the credentials are torn down; so do
  all other steps of the coordinator, and login. Of all the actions that write the
  store, those that write the id are the switch to an organization, the removal of one,
  the creation of one and logout.
\<close>

theorem active_org_outlives_refresh:
  "getItem (storage (refresh_fulfilled r t s)) ''active_org_id''
     = getItem (storage s) ''active_org_id''
   \<and> getItem (storage (refresh_failed r e s)) ''active_org_id''
     = getItem (storage s) ''active_org_id''
   \<and> (\<forall>x a'. act a x = Some a' \<and> \<not> writes_active_org x \<longrightarrow>
        getItem (storage (session a')) ''active_org_id''
          = getItem (storage (session a)) ''active_org_id'')"
proof -
  have "getItem (storage (refresh_fulfilled r t s)) ''active_org_id''
     = getItem (storage s) ''active_org_id''"
    by (simp add: refresh_fulfilled_fields getItem_def setItem_def)
  moreover have "getItem (storage (refresh_failed r e s)) ''active_org_id''
     = getItem (storage s) ''active_org_id''"
    by (simp add: refresh_failed_fields getItem_def removeItem_def)
  ultimately show ?thesis
    using act_keeps_active_org[of a] by blast
qed

theorem active_org_outlives_refresh_witness:
  "act (sample_app\<lparr>session := second_refresh\<rparr>) (Coordinator (Refresh_rejected 13 refresh_error))
     = Some (the (act (sample_app\<lparr>session := second_refresh\<rparr>)
          (Coordinator (Refresh_rejected 13 refresh_error))))
   \<and> \<not> writes_active_org (Coordinator (Refresh_rejected 13 refresh_error))
   \<and> getItem (storage (session (the (act (sample_app\<lparr>session := second_refresh\<rparr>)
          (Coordinator (Refresh_rejected 13 refresh_error)))))) ''active_org_id'' = Some ''org-1''
   \<and> getItem (storage (session (the (act (sample_app\<lparr>session := second_refresh\<rparr>)
          (Coordinator (Refresh_rejected 13 refresh_error)))))) ''refresh_token'' = None"
proof -
  let ?a = "sample_app\<lparr>session := second_refresh\<rparr>"
  let ?x = "Coordinator (Refresh_rejected 13 refresh_error)"
  have some: "act ?a ?x = Some (the (act ?a ?x))"
    by (simp add: second_refresh_state)
  have no: "\<not> writes_active_org ?x"
    by simp
  have before: "getItem (storage (session ?a)) ''active_org_id'' = Some ''org-1''"
    by (simp add: second_refresh_def sample_defs handler_defs)
  from active_org_outlives_refresh[of 13 "''T3''" second_refresh refresh_error ?a] some no
  have "getItem (storage (session (the (act ?a ?x)))) ''active_org_id''
      = getItem (storage (session ?a)) ''active_org_id''"
    by blast
  with before have kept: "getItem (storage (session (the (act ?a ?x)))) ''active_org_id''
      = Some ''org-1''"
    by simp
  have gone: "getItem (storage (session (the (act ?a ?x)))) ''refresh_token'' = None"
    by (simp add: second_refresh_state refresh_failed_fields getItem_def removeItem_def)
  show ?thesis
    by (intro conjI) (rule some no kept gone)+
qed

text \<open>
  The claim as the specification words it fails on two actions that are neither a switch
  nor a removal: logout clears the whole store, the id with it, and the creation of an
  organization makes the new organization the active one.
\<close>

theorem logout_clears_active_org:
  "\<not> switch_or_removal Logout
   \<and> act sample_app Logout \<noteq> None
   \<and> getItem (storage (session sample_app)) ''active_org_id'' = Some ''org-1''
   \<and> getItem (storage (session (the (act sample_app Logout)))) ''active_org_id'' = None
   \<and> \<not> switch_or_removal (CreateOrg (Inr org_b))
   \<and> act sample_app (CreateOrg (Inr org_b)) \<noteq> None
   \<and> getItem (storage (session (the (act sample_app (CreateOrg (Inr org_b))))))
        ''active_org_id'' = Some ''org-2''"
  by (simp add: sample_app_def sample_defs put_def logout_def clear_def onSubmit_def org_b_def)


end
